theory Spec2Isabelle
  imports Complex_Main "HOL-Library.Word"
begin

section \<open>JavaScript strings\<close>

text \<open>
  A JavaScript string is a sequence of 16-bit code units; \<open>length\<close>, \<open>charAt\<close>,
  \<open>===\<close> and \<open>includes\<close> all work on code units. ASCII literals of the script are
  written \<open>js ''...''\<close>.
\<close>

type_synonym jschar = "16 word"
type_synonym jsstring = "jschar list"

definition js :: "string \<Rightarrow> jsstring" where
  "js s = map of_char s"

text \<open>
  \<open>String.prototype.trim\<close> strips the ECMAScript WhiteSpace and LineTerminator code
  points from both ends: TAB, LF, VT, FF, CR, SPACE, NBSP, the other space separators
  (U+1680, U+2000..U+200A, U+202F, U+205F, U+3000), LS, PS and the BOM.
\<close>

definition is_js_whitespace :: "jschar \<Rightarrow> bool" where
  "is_js_whitespace c \<longleftrightarrow>
     c \<in> set [0x09, 0x0A, 0x0B, 0x0C, 0x0D, 0x20, 0xA0, 0x1680,
               0x2028, 0x2029, 0x202F, 0x205F, 0x3000, 0xFEFF]
     \<or> (0x2000 \<le> c \<and> c \<le> 0x200A)"

definition trim :: "jsstring \<Rightarrow> jsstring" where
  "trim s = rev (dropWhile is_js_whitespace (rev (dropWhile is_js_whitespace s)))"

text \<open>\<open>s.charAt(k)\<close>: the one-unit string at index \<open>k\<close>, the empty string out of range.\<close>

definition charAt :: "jsstring \<Rightarrow> nat \<Rightarrow> jsstring" where
  "charAt s k = (if k < length s then [s ! k] else [])"

text \<open>\<open>a || b\<close> on an attribute value that may be missing: missing and empty are both falsy.\<close>

definition or_else :: "jsstring option \<Rightarrow> jsstring \<Rightarrow> jsstring" where
  "or_else a b = (case a of None \<Rightarrow> b | Some v \<Rightarrow> (if v = [] then b else v))"

text \<open>\<open>el.classList.add(c)\<close> and \<open>el.classList.toggle(c, force)\<close> on an ordered token set.\<close>

definition classList_add :: "jsstring \<Rightarrow> jsstring list \<Rightarrow> jsstring list" where
  "classList_add c cs = (if c \<in> set cs then cs else cs @ [c])"

definition classList_toggle :: "jsstring \<Rightarrow> bool \<Rightarrow> jsstring list \<Rightarrow> jsstring list" where
  "classList_toggle c force cs = (if force then classList_add c cs else removeAll c cs)"

section \<open>Typing effect (header subtitle)\<close>

text \<open>
  The child nodes of an element: text nodes and elements. An element carries the identity
  of the JavaScript object (\<open>appendChild\<close> moves a node that is already a child).
\<close>

datatype node = Text jsstring | Element nat "node list"

text \<open>The \<open>textContent\<close> getter: the text of all descendants, in tree order.\<close>

fun textContent :: "node \<Rightarrow> jsstring" where
  "textContent (Text s) = s"
| "textContent (Element k cs) = concat (map textContent cs)"

definition get_textContent :: "node list \<Rightarrow> jsstring" where
  "get_textContent cs = concat (map textContent cs)"

text \<open>The \<open>textContent\<close> setter replaces all children by one text node, or by none for "".\<close>

definition set_textContent :: "jsstring \<Rightarrow> node list" where
  "set_textContent s = (if s = [] then [] else [Text s])"

fun same_node :: "node \<Rightarrow> node \<Rightarrow> bool" where
  "same_node (Element k cs) (Element k' cs') = (k = k')"
| "same_node a b = False"

definition appendChild :: "node list \<Rightarrow> node \<Rightarrow> node list" where
  "appendChild cs c = filter (\<lambda>n. \<not> same_node c n) cs @ [c]"

text \<open>The cursor glyph U+258B, and the \<open>span\<close> created for it (a fresh object).\<close>

definition glyph :: jschar where
  "glyph = 0x258B"

definition cursor :: node where
  "cursor = Element 0 [Text [glyph]]"

text \<open>
  The part of the page the typing effect touches: the children of the first \<open>header p\<close>
  (\<open>None\<close> when the selector matches nothing), the closure variables \<open>full\<close> and \<open>i\<close>,
  \<open>cursor.style.opacity\<close>, the number of pending \<open>setTimeout(typeNext, ...)\<close> calls and
  the number of registered blink intervals. The random delay of a timeout is not part of
  the state: a tick is the moment a pending timeout fires.
\<close>

record typing_page =
  header_p :: "node list option"
  full :: jsstring
  i_next :: nat
  cursor_opacity :: jsstring
  timeouts :: nat
  intervals :: nat

definition typeNext :: "typing_page \<Rightarrow> typing_page" where
  "typeNext st =
     (case header_p st of
        None \<Rightarrow> st
      | Some cs \<Rightarrow>
          if i_next st < length (full st) then
            st\<lparr>header_p :=
                  Some (appendChild
                          (set_textContent (get_textContent cs @ charAt (full st) (i_next st)))
                          cursor),
               i_next := i_next st + 1,
               timeouts := timeouts st + 1\<rparr>
          else st\<lparr>intervals := intervals st + 1\<rparr>)"

definition typingEffect :: "typing_page \<Rightarrow> typing_page" where
  "typingEffect st =
     (case header_p st of
        None \<Rightarrow> st
      | Some cs \<Rightarrow>
          typeNext (st\<lparr>full := trim (get_textContent cs),
                       i_next := 0,
                       header_p := Some (set_textContent [])\<rparr>))"

text \<open>A pending timeout fires and runs \<open>typeNext\<close>; a blink interval toggles the opacity.\<close>

definition timeout_fires :: "typing_page \<Rightarrow> typing_page" where
  "timeout_fires st =
     (if timeouts st = 0 then st else typeNext (st\<lparr>timeouts := timeouts st - 1\<rparr>))"

definition interval_fires :: "typing_page \<Rightarrow> typing_page" where
  "interval_fires st =
     (if intervals st = 0 then st
      else st\<lparr>cursor_opacity :=
                 (if cursor_opacity st = js ''0'' then js ''1'' else js ''0'')\<rparr>)"

definition rendered :: "typing_page \<Rightarrow> jsstring" where
  "rendered st = (case header_p st of None \<Rightarrow> [] | Some cs \<Rightarrow> get_textContent cs)"

text \<open>
  The page before the script runs, for a subtitle whose only child is the text \<open>s\<close>; and
  a text with the cursor glyph after each of its code units.
\<close>

definition typing_page_of :: "jsstring \<Rightarrow> typing_page" where
  "typing_page_of s =
     \<lparr>header_p = Some [Text s], full = [], i_next = 0, cursor_opacity = [],
      timeouts = 0, intervals = 0\<rparr>"

definition interleave_cursor :: "jsstring \<Rightarrow> jsstring" where
  "interleave_cursor s = concat (map (\<lambda>c. [c, glyph]) s)"

section \<open>Back-to-top button\<close>

text \<open>
  \<open>btn.style.display\<close> of the created button, and whether the button has been appended
  to \<open>document.body\<close>. \<open>window.scrollY\<close> is a finite double, read as a real number.
\<close>

record back_to_top =
  btn_display :: jsstring
  btn_appended :: bool

definition backToTopButton :: "back_to_top \<Rightarrow> back_to_top" where
  "backToTopButton st = st\<lparr>btn_display := js ''none'', btn_appended := True\<rparr>"

definition backToTop_scroll :: "real \<Rightarrow> back_to_top \<Rightarrow> back_to_top" where
  "backToTop_scroll scrollY st =
     st\<lparr>btn_display := (if scrollY > 300 then js ''grid'' else js ''none'')\<rparr>"

definition backToTop_shown :: "back_to_top \<Rightarrow> bool" where
  "backToTop_shown st \<longleftrightarrow> btn_display st \<noteq> js ''none''"

text \<open>The scroll listener run on a sequence of scroll positions, oldest first.\<close>

definition backToTop_scrolls :: "real list \<Rightarrow> back_to_top \<Rightarrow> back_to_top" where
  "backToTop_scrolls ys st = fold backToTop_scroll ys st"

section \<open>Smooth scroll for hash links\<close>

text \<open>
  What a click on a link matched by \<open>a[href^="#"]\<close> can change: the \<open>defaultPrevented\<close>
  flag of the click event, the element last passed to \<open>scrollIntoView\<close> and the URLs
  passed to \<open>history.pushState\<close> (oldest first). Elements are named by their identity.

  \<open>document.querySelector\<close> is the browser's selector engine: it is a parameter \<open>qs\<close>
  of the handler, giving the matched element, \<open>null\<close> (\<open>None\<close>), or the \<open>SyntaxError\<close> it
  throws on an invalid selector. \<open>getAttribute\<close> gives \<open>null\<close> for a missing attribute,
  and reading \<open>length\<close> of \<open>null\<close> throws a \<open>TypeError\<close>.
\<close>

datatype js_error = TypeError | SyntaxError

record scroll_page =
  default_prevented :: bool
  scrolled_into_view :: "nat option"
  pushed_states :: "jsstring list"

definition smoothScroll_click ::
  "(jsstring \<Rightarrow> js_error + nat option) \<Rightarrow> jsstring option \<Rightarrow> scroll_page
     \<Rightarrow> js_error + scroll_page" where
  "smoothScroll_click qs href st =
     (case href of
        None \<Rightarrow> Inl TypeError
      | Some targetId \<Rightarrow>
          if length targetId > 1 then
            (case qs targetId of
               Inl err \<Rightarrow> Inl err
             | Inr None \<Rightarrow> Inr st
             | Inr (Some target) \<Rightarrow>
                 Inr (st\<lparr>default_prevented := True,
                         scrolled_into_view := Some target,
                         pushed_states := pushed_states st @ [targetId]\<rparr>))
          else Inr st)"









section \<open>Reveal-on-scroll\<close>

text \<open>
  The class list of every element and the targets the observer watches. An entry of the
  observer's callback names its target and carries \<open>isIntersecting\<close>, which the browser
  computes for the observer's threshold of 0.15.
\<close>

record io_entry =
  entry_target :: nat
  isIntersecting :: bool

record reveal_page =
  classList :: "nat \<Rightarrow> jsstring list"
  observed :: "nat list"

definition io_observe :: "nat \<Rightarrow> nat list \<Rightarrow> nat list" where
  "io_observe el ts = (if el \<in> set ts then ts else ts @ [el])"

definition io_unobserve :: "nat \<Rightarrow> nat list \<Rightarrow> nat list" where
  "io_unobserve el ts = removeAll el ts"

definition reveal_entry :: "io_entry \<Rightarrow> reveal_page \<Rightarrow> reveal_page" where
  "reveal_entry entry st =
     (if isIntersecting entry then
        st\<lparr>classList := (classList st)
                (entry_target entry :=
                   classList_add (js ''reveal-in'') (classList st (entry_target entry))),
           observed := io_unobserve (entry_target entry) (observed st)\<rparr>
      else st)"

definition io_callback :: "io_entry list \<Rightarrow> reveal_page \<Rightarrow> reveal_page" where
  "io_callback entries st = fold reveal_entry entries st"

definition reveal_init :: "nat \<Rightarrow> reveal_page \<Rightarrow> reveal_page" where
  "reveal_init el st =
     st\<lparr>classList := (classList st) (el := classList_add (js ''reveal'') (classList st el)),
        observed := io_observe el (observed st)\<rparr>"

text \<open>
  The set-up: \<open>supported\<close> is \<open>"IntersectionObserver" in window\<close>, \<open>revealTargets\<close> the
  elements matched by the reveal selectors.
\<close>

definition revealOnScroll :: "bool \<Rightarrow> nat list \<Rightarrow> reveal_page \<Rightarrow> reveal_page" where
  "revealOnScroll supported revealTargets st =
     (if supported \<and> revealTargets \<noteq> [] then fold reveal_init revealTargets st else st)"

text \<open>The callback run on a sequence of batches of entries, oldest first.\<close>

definition io_callbacks :: "io_entry list list \<Rightarrow> reveal_page \<Rightarrow> reveal_page" where
  "io_callbacks batches st = fold io_callback batches st"

text \<open>
  An element is revealed when it carries the class \<open>reveal-in\<close> and is no longer
  watched. In \<open>reveal_page0\<close> no element has a class and nothing is watched.
\<close>

definition revealed :: "reveal_page \<Rightarrow> nat \<Rightarrow> bool" where
  "revealed st el \<longleftrightarrow>
     js ''reveal-in'' \<in> set (classList st el) \<and> el \<notin> set (observed st)"

definition reveal_page0 :: reveal_page where
  "reveal_page0 = \<lparr>classList = (\<lambda>el. []), observed = []\<rparr>"

section \<open>Theme toggle\<close>

text \<open>
  \<open>document.documentElement.dataset.theme\<close>, the ids of the elements under
  \<open>document.head\<close> and \<open>document.body\<close> in document order, \<open>localStorage\<close>, and the text
  of the toggle button. The icons are U+2600 U+FE0F and U+1F319 (a surrogate pair).
\<close>

record theme_page =
  data_theme :: "jsstring option"
  head_ids :: "jsstring list"
  body_ids :: "jsstring list"
  localStorage :: "jsstring \<rightharpoonup> jsstring"
  toggle_text :: jsstring

definition theme_key :: jsstring where
  "theme_key = js ''theme-preference''"

definition sun_icon :: jsstring where
  "sun_icon = [0x2600, 0xFE0F]"

definition moon_icon :: jsstring where
  "moon_icon = [0xD83C, 0xDF19]"

definition applyTheme :: "jsstring \<Rightarrow> theme_page \<Rightarrow> theme_page" where
  "applyTheme mode st =
     (if js ''theme-style'' \<in> set (head_ids st @ body_ids st)
      then st\<lparr>data_theme := Some mode\<rparr>
      else st\<lparr>data_theme := Some mode, head_ids := head_ids st @ [js ''theme-style'']\<rparr>)"

text \<open>The set-up; \<open>prefersDark\<close> is the result of the media query.\<close>

definition themeToggle :: "bool \<Rightarrow> theme_page \<Rightarrow> theme_page" where
  "themeToggle prefersDark st =
     (let saved = localStorage st theme_key;
          initial = or_else saved (if prefersDark then js ''dark'' else js ''light'');
          st1 = applyTheme initial st
      in st1\<lparr>toggle_text := (if initial = js ''dark'' then sun_icon else moon_icon),
             body_ids := body_ids st1 @ [js ''themeToggle'']\<rparr>)"

definition themeToggle_click :: "theme_page \<Rightarrow> theme_page" where
  "themeToggle_click st =
     (let current = or_else (data_theme st) (js ''light'');
          next = (if current = js ''dark'' then js ''light'' else js ''dark'');
          st1 = applyTheme next st
      in st1\<lparr>toggle_text := (if next = js ''dark'' then sun_icon else moon_icon),
             localStorage := (localStorage st1)(theme_key \<mapsto> next)\<rparr>)"

text \<open>An operation on the theme: a theme is applied, or the button is clicked.\<close>

datatype theme_op = Apply jsstring | Toggle

fun theme_step :: "theme_op \<Rightarrow> theme_page \<Rightarrow> theme_page" where
  "theme_step (Apply mode) st = applyTheme mode st"
| "theme_step Toggle st = themeToggle_click st"

definition style_blocks :: "theme_page \<Rightarrow> nat" where
  "style_blocks st = count_list (head_ids st @ body_ids st) (js ''theme-style'')"

definition theme_steps :: "theme_op list \<Rightarrow> theme_page \<Rightarrow> theme_page" where
  "theme_steps ops st = fold theme_step ops st"

text \<open>A page with no theme marker, no element that carries an id and an empty storage.\<close>

definition theme_page0 :: theme_page where
  "theme_page0 =
     \<lparr>data_theme = None, head_ids = [], body_ids = [], localStorage = Map.empty,
      toggle_text = []\<rparr>"

section \<open>Project filter\<close>

text \<open>
  A filter control (\<open>[data-filter]\<close>) with its \<open>dataset.filter\<close> and class list, a card
  (\<open>.project\<close>) with its \<open>dataset.tags\<close> and \<open>style.display\<close>, and the controls that have
  a click listener, by their index in \<open>buttons\<close>.

  \<open>String.prototype.toLowerCase\<close> is the Unicode lower-casing of the engine: it is the
  parameter \<open>toLowerCase\<close> of \<open>normalize\<close>. \<open>toLowerCase_ascii\<close> is what it computes on
  ASCII text.
\<close>

record filter_button =
  data_filter :: "jsstring option"
  button_classes :: "jsstring list"

record project_card =
  data_tags :: "jsstring option"
  card_display :: jsstring

record filter_page =
  buttons :: "filter_button list"
  cards :: "project_card list"
  filter_listeners :: "nat list"

definition toLowerCase_ascii :: "jsstring \<Rightarrow> jsstring" where
  "toLowerCase_ascii s = map (\<lambda>c. if 0x41 \<le> c \<and> c \<le> 0x5A then c + 0x20 else c) s"

definition normalize :: "(jsstring \<Rightarrow> jsstring) \<Rightarrow> jsstring option \<Rightarrow> jsstring" where
  "normalize toLowerCase s = trim (toLowerCase (or_else s []))"

text \<open>\<open>s.split(sep)\<close> for a one-unit separator: \<open>"".split(",")\<close> is \<open>[""]\<close>.\<close>

fun split :: "jschar \<Rightarrow> jsstring \<Rightarrow> jsstring list" where
  "split sep [] = [[]]"
| "split sep (c # cs) =
     (if c = sep then [] # split sep cs
      else (c # hd (split sep cs)) # tl (split sep cs))"

definition comma :: jschar where
  "comma = 0x2C"

definition setActive :: "nat \<Rightarrow> filter_button list \<Rightarrow> filter_button list" where
  "setActive btn bs =
     map (\<lambda>(k, b). b\<lparr>button_classes :=
                       classList_toggle (js ''active'') (k = btn) (button_classes b)\<rparr>)
         (zip [0..<length bs] bs)"

definition card_tags :: "(jsstring \<Rightarrow> jsstring) \<Rightarrow> project_card \<Rightarrow> jsstring list" where
  "card_tags toLowerCase c =
     map (\<lambda>t. normalize toLowerCase (Some t)) (split comma (or_else (data_tags c) []))"

definition applyFilter ::
  "(jsstring \<Rightarrow> jsstring) \<Rightarrow> jsstring \<Rightarrow> project_card list \<Rightarrow> project_card list" where
  "applyFilter toLowerCase tag cs =
     map (\<lambda>c.
            c\<lparr>card_display :=
                 (if tag = js ''all'' \<or> tag \<in> set (card_tags toLowerCase c)
                  then [] else js ''none'')\<rparr>)
         cs"

definition projectFilter :: "(jsstring \<Rightarrow> jsstring) \<Rightarrow> filter_page \<Rightarrow> filter_page" where
  "projectFilter toLowerCase st =
     (if buttons st = [] \<or> cards st = [] then st
      else st\<lparr>filter_listeners := filter_listeners st @ [0..<length (buttons st)],
              cards := applyFilter toLowerCase (js ''all'') (cards st)\<rparr>)"

text \<open>A click on the control with index \<open>btn\<close> runs its listener, if it has one.\<close>

definition filter_click :: "(jsstring \<Rightarrow> jsstring) \<Rightarrow> nat \<Rightarrow> filter_page \<Rightarrow> filter_page" where
  "filter_click toLowerCase btn st =
     (if btn \<in> set (filter_listeners st) \<and> btn < length (buttons st) then
        st\<lparr>buttons := setActive btn (buttons st),
           cards := applyFilter toLowerCase
                      (normalize toLowerCase (data_filter (buttons st ! btn))) (cards st)\<rparr>
      else st)"

definition filter_clicks ::
  "(jsstring \<Rightarrow> jsstring) \<Rightarrow> nat list \<Rightarrow> filter_page \<Rightarrow> filter_page" where
  "filter_clicks toLowerCase btns st = fold (filter_click toLowerCase) btns st"

definition is_active :: "filter_button \<Rightarrow> bool" where
  "is_active b \<longleftrightarrow> js ''active'' \<in> set (button_classes b)"

definition card_shown :: "project_card \<Rightarrow> bool" where
  "card_shown c \<longleftrightarrow> card_display c \<noteq> js ''none''"

text \<open>
  The page before the script runs, with one control for each \<open>data-filter\<close> value and
  one card for each \<open>data-tags\<close> value; and an example after the set-up: controls "all"
  and " Web ", cards tagged " WEB ,js" and "design".
\<close>

definition filter_page_of :: "jsstring list \<Rightarrow> jsstring list \<Rightarrow> filter_page" where
  "filter_page_of fs ts =
     \<lparr>buttons = map (\<lambda>f. \<lparr>data_filter = Some f, button_classes = []\<rparr>) fs,
      cards = map (\<lambda>t. \<lparr>data_tags = Some t, card_display = []\<rparr>) ts,
      filter_listeners = []\<rparr>"

definition filter_page_example :: filter_page where
  "filter_page_example =
     projectFilter toLowerCase_ascii
       (filter_page_of [js ''all'', js '' Web ''] [js '' WEB ,js'', js ''design''])"

section \<open>Modal image viewer\<close>

text \<open>
  The images matched by \<open>img[data-lightbox]\<close>, the overlay once it is created, the ids of
  the elements appended to \<open>document.body\<close>, and the registered listeners.
\<close>

record lightbox_img =
  img_src :: jsstring
  img_alt :: jsstring
  img_cursor :: jsstring

record lightbox_overlay =
  overlay_display :: jsstring
  big_src :: jsstring
  big_alt :: jsstring

datatype lightbox_listener = OverlayClick | DocumentKeydown | ImgClick nat

record lightbox_page =
  imgs :: "lightbox_img list"
  overlay :: "lightbox_overlay option"
  lightbox_body :: "jsstring list"
  lightbox_listeners :: "lightbox_listener list"

definition lightbox :: "lightbox_page \<Rightarrow> lightbox_page" where
  "lightbox st =
     (if imgs st = [] then st
      else st\<lparr>overlay := Some \<lparr>overlay_display = js ''none'', big_src = [], big_alt = []\<rparr>,
              lightbox_body := lightbox_body st @ [js ''lightboxOverlay''],
              lightbox_listeners := lightbox_listeners st @ [OverlayClick, DocumentKeydown]
                                      @ map ImgClick [0..<length (imgs st)],
              imgs := map (\<lambda>img. img\<lparr>img_cursor := js ''zoom-in''\<rparr>) (imgs st)\<rparr>)"

definition lightbox_open :: "jsstring \<Rightarrow> jsstring \<Rightarrow> lightbox_page \<Rightarrow> lightbox_page" where
  "lightbox_open src alt st =
     st\<lparr>overlay := map_option
          (\<lambda>ov. ov\<lparr>big_src := src, big_alt := alt, overlay_display := js ''flex''\<rparr>)
          (overlay st)\<rparr>"

definition lightbox_close :: "lightbox_page \<Rightarrow> lightbox_page" where
  "lightbox_close st =
     st\<lparr>overlay := map_option (\<lambda>ov. ov\<lparr>overlay_display := js ''none''\<rparr>) (overlay st)\<rparr>"

section \<open>Copy e-mail to clipboard\<close>

text \<open>
  The element matched by \<open>[data-copy-email], a[href^="mailto:"]\<close> (\<open>None\<close> when there is
  none) with its \<open>dataset.copyEmail\<close> and its \<open>href\<close> attribute, whether it has the click
  listener, the \<open>defaultPrevented\<close> flag of the click event, and the texts handed to
  \<open>navigator.clipboard.writeText\<close> (oldest first).
\<close>

record copy_el =
  data_copy_email :: "jsstring option"
  href_attr :: "jsstring option"

record copy_page =
  copy_target :: "copy_el option"
  copy_listener :: bool
  copy_prevented :: bool
  clipboard_writes :: "jsstring list"

text \<open>\<open>s.replace(pat, rep)\<close> for a string pattern: the first occurrence only.\<close>

fun replace :: "jsstring \<Rightarrow> jsstring \<Rightarrow> jsstring \<Rightarrow> jsstring" where
  "replace pat rep [] = (if pat = [] then rep else [])"
| "replace pat rep (c # cs) =
     (if take (length pat) (c # cs) = pat then rep @ drop (length pat) (c # cs)
      else c # replace pat rep cs)"

definition resolve_email :: "copy_el \<Rightarrow> jsstring" where
  "resolve_email el =
     or_else (data_copy_email el)
       (trim (replace (js ''mailto:'') [] (or_else (href_attr el) [])))"

definition copyEmail :: "copy_page \<Rightarrow> copy_page" where
  "copyEmail st = (case copy_target st of None \<Rightarrow> st | Some el \<Rightarrow> st\<lparr>copy_listener := True\<rparr>)"

definition copyEmail_click :: "copy_page \<Rightarrow> copy_page" where
  "copyEmail_click st =
     (case copy_target st of
        None \<Rightarrow> st
      | Some el \<Rightarrow>
          if copy_listener st \<and> resolve_email el \<noteq> [] then
            st\<lparr>copy_prevented := True,
               clipboard_writes := clipboard_writes st @ [resolve_email el]\<rparr>
          else st)"


section \<open>Toast utility\<close>

text \<open>
  The elements of the document that carry an id, with the text, opacity and transform
  the toast sets; the clock in milliseconds; and the pending fade-out timeouts, each with
  its due time and the element \<open>t\<close> it closes over (by index, in the order scheduled).
  No timeout of the script is ever cleared.
\<close>

record toast_el =
  el_id :: jsstring
  el_text :: jsstring
  el_opacity :: jsstring
  el_transform :: jsstring

record toast_page =
  document_els :: "toast_el list"
  now :: nat
  fade_timers :: "(nat \<times> nat) list"

fun find_id :: "jsstring \<Rightarrow> toast_el list \<Rightarrow> nat option" where
  "find_id i [] = None"
| "find_id i (e # es) = (if el_id e = i then Some 0 else map_option Suc (find_id i es))"

text \<open>The default parameters \<open>msg = ""\<close> and \<open>duration = 1500\<close>.\<close>

definition msg_arg :: "jsstring option \<Rightarrow> jsstring" where
  "msg_arg msg = (case msg of None \<Rightarrow> [] | Some v \<Rightarrow> v)"

definition duration_arg :: "nat option \<Rightarrow> nat" where
  "duration_arg duration = (case duration of None \<Rightarrow> 1500 | Some v \<Rightarrow> v)"

text \<open>
  The index of \<open>t\<close>: the element \<open>$("#toast")\<close> finds, or the one that is created and
  appended when there is none.
\<close>

definition toast_index :: "toast_el list \<Rightarrow> nat" where
  "toast_index els = (case find_id (js ''toast'') els of Some k \<Rightarrow> k | None \<Rightarrow> length els)"

definition toast :: "jsstring option \<Rightarrow> nat option \<Rightarrow> toast_page \<Rightarrow> toast_page" where
  "toast msg duration st =
     (let els = (case find_id (js ''toast'') (document_els st) of
                   Some k \<Rightarrow> document_els st
                 | None \<Rightarrow> document_els st @
                     [\<lparr>el_id = js ''toast'', el_text = [], el_opacity = js ''0'',
                       el_transform = js ''translateX(-50%)''\<rparr>]);
          t = toast_index (document_els st)
      in st\<lparr>document_els :=
               els[t := (els ! t)\<lparr>el_text := msg_arg msg, el_opacity := js ''1'',
                                 el_transform := js ''translateX(-50%) translateY(0)''\<rparr>],
            fade_timers := fade_timers st @ [(now st + duration_arg duration, t)]\<rparr>)"

definition fade_out :: "nat \<Rightarrow> toast_el list \<Rightarrow> toast_el list" where
  "fade_out t els =
     (if t < length els then
        els[t := (els ! t)\<lparr>el_opacity := js ''0'',
                          el_transform := js ''translateX(-50%) translateY(6px)''\<rparr>]
      else els)"

text \<open>
  The clock advances by \<open>dt\<close>: every timeout that is due by then fires, earliest first,
  and is gone.
\<close>

definition advance :: "nat \<Rightarrow> toast_page \<Rightarrow> toast_page" where
  "advance dt st =
     (let due = filter (\<lambda>tm. fst tm \<le> now st + dt) (fade_timers st)
      in st\<lparr>document_els := fold (\<lambda>tm. fade_out (snd tm)) (sort_key fst due) (document_els st),
            now := now st + dt,
            fade_timers := filter (\<lambda>tm. \<not> fst tm \<le> now st + dt) (fade_timers st)\<rparr>)"

definition toast_visible :: "toast_page \<Rightarrow> bool" where
  "toast_visible st =
     (case find_id (js ''toast'') (document_els st) of
        None \<Rightarrow> False
      | Some t \<Rightarrow> el_opacity (document_els st ! t) = js ''1'')"

definition toast_message :: "toast_page \<Rightarrow> jsstring option" where
  "toast_message st =
     map_option (\<lambda>t. el_text (document_els st ! t)) (find_id (js ''toast'') (document_els st))"

text \<open>A page with no element that carries an id, at time 0, and nothing pending.\<close>

definition toast_page0 :: toast_page where
  "toast_page0 = \<lparr>document_els = [], now = 0, fade_timers = []\<rparr>"

definition toast_count :: "toast_page \<Rightarrow> nat" where
  "toast_count st = count_list (map el_id (document_els st)) (js ''toast'')"

section \<open>Properties\<close>

subsection \<open>Typing effect\<close>

lemma get_textContent_appendChild_cursor:
  "get_textContent (appendChild (set_textContent s) cursor) = s @ [glyph]"
  by (simp add: get_textContent_def appendChild_def set_textContent_def cursor_def)

lemma typeNext_reveals:
  assumes "header_p st = Some cs" and "i_next st < length (full st)"
  shows "rendered (typeNext st) = get_textContent cs @ [full st ! i_next st, glyph]"
    and "i_next (typeNext st) = i_next st + 1"
    and "full (typeNext st) = full st"
    and "timeouts (typeNext st) = timeouts st + 1"
    and "intervals (typeNext st) = intervals st"
    and "header_p (typeNext st) \<noteq> None"
  using assms
  by (simp_all add: typeNext_def rendered_def charAt_def get_textContent_appendChild_cursor)

lemma typingEffect_first:
  assumes "header_p st = Some cs" and "trim (get_textContent cs) \<noteq> []"
  shows "rendered (typingEffect st) = [trim (get_textContent cs) ! 0, glyph]"
    and "i_next (typingEffect st) = 1"
    and "full (typingEffect st) = trim (get_textContent cs)"
    and "timeouts (typingEffect st) = timeouts st + 1"
    and "header_p (typingEffect st) \<noteq> None"
proof -
  let ?t = "st\<lparr>full := trim (get_textContent cs), i_next := 0,
                header_p := Some (set_textContent [])\<rparr>"
  have e: "typingEffect st = typeNext ?t"
    using assms(1) by (simp add: typingEffect_def)
  have t: "header_p ?t = Some []" "i_next ?t < length (full ?t)"
    using assms(2) by (simp_all add: set_textContent_def)
  have g: "get_textContent [] = []"
    by (simp add: get_textContent_def)
  show "rendered (typingEffect st) = [trim (get_textContent cs) ! 0, glyph]"
    and "i_next (typingEffect st) = 1"
    and "full (typingEffect st) = trim (get_textContent cs)"
    and "timeouts (typingEffect st) = timeouts st + 1"
    and "header_p (typingEffect st) \<noteq> None"
    using typeNext_reveals [OF t] by (simp_all add: e g)
qed

lemma interleave_take_Suc:
  "k < length s \<Longrightarrow> interleave_cursor (take (Suc k) s) = interleave_cursor (take k s) @ [s ! k, glyph]"
  by (simp add: interleave_cursor_def take_Suc_conv_app_nth)

lemma typing_run:
  assumes "header_p st = Some cs" and "k < length (trim (get_textContent cs))"
  shows "rendered ((timeout_fires ^^ k) (typingEffect st))
           = interleave_cursor (take (Suc k) (trim (get_textContent cs)))
       \<and> i_next ((timeout_fires ^^ k) (typingEffect st)) = Suc k
       \<and> full ((timeout_fires ^^ k) (typingEffect st)) = trim (get_textContent cs)
       \<and> timeouts ((timeout_fires ^^ k) (typingEffect st)) = timeouts st + 1
       \<and> header_p ((timeout_fires ^^ k) (typingEffect st)) \<noteq> None"
  using assms(2)
proof (induction k)
  case 0
  then have ne: "trim (get_textContent cs) \<noteq> []" by auto
  show ?case
    using typingEffect_first [OF assms(1) ne] ne
    by (simp add: interleave_cursor_def take_Suc hd_conv_nth)
next
  case (Suc k)
  let ?s = "(timeout_fires ^^ k) (typingEffect st)"
  let ?F = "trim (get_textContent cs)"
  from Suc have IH: "rendered ?s = interleave_cursor (take (Suc k) ?F)"
    "i_next ?s = Suc k" "full ?s = ?F" "timeouts ?s = timeouts st + 1" "header_p ?s \<noteq> None"
    by simp_all
  then obtain cs' where cs': "header_p ?s = Some cs'" by auto
  let ?t = "?s\<lparr>timeouts := timeouts ?s - 1\<rparr>"
  have t: "header_p ?t = Some cs'" "i_next ?t < length (full ?t)"
    using cs' IH Suc.prems by simp_all
  have tf: "timeout_fires ?s = typeNext ?t"
    using IH by (simp add: timeout_fires_def)
  have r: "get_textContent cs' = interleave_cursor (take (Suc k) ?F)"
    using IH(1) cs' by (simp add: rendered_def)
  show ?case
    using typeNext_reveals [OF t] IH Suc.prems r
    by (simp add: tf interleave_take_Suc)
qed

text \<open>
  Claim C1. For the subtitle "ab" (two code units), the rendered text after the first
  tick is "a" and the cursor glyph, and after the second tick it is "a", glyph, "b",
  glyph: the glyph of the previous tick is read back by \<open>el.textContent +=\<close> and stays in
  the text. A further tick only starts the blinking. The rendered text is never "ab"
  followed by one glyph.
\<close>

theorem C1_typing_effect_cursor_accumulates:
  "rendered (typingEffect (typing_page_of (js ''ab''))) = js ''a'' @ [glyph]
   \<and> rendered (timeout_fires (typingEffect (typing_page_of (js ''ab''))))
       = js ''a'' @ [glyph] @ js ''b'' @ [glyph]
   \<and> rendered (timeout_fires (timeout_fires (typingEffect (typing_page_of (js ''ab'')))))
       = js ''a'' @ [glyph] @ js ''b'' @ [glyph]
   \<and> js ''a'' @ [glyph] @ js ''b'' @ [glyph] \<noteq> js ''ab'' @ [glyph]"
  by (simp add: typing_page_of_def typingEffect_def typeNext_def timeout_fires_def
      rendered_def js_def trim_def is_js_whitespace_def get_textContent_def
      set_textContent_def appendChild_def cursor_def charAt_def glyph_def)

subsection \<open>Back-to-top button\<close>

lemma grid_not_none: "js ''grid'' \<noteq> js ''none''"
  by (simp add: js_def)

lemma backToTop_scroll_shown: "backToTop_shown (backToTop_scroll y st) \<longleftrightarrow> y > 300"
  by (simp add: backToTop_scroll_def backToTop_shown_def grid_not_none)

lemma backToTop_scrolls_snoc:
  "backToTop_scrolls (ys @ [y]) st = backToTop_scroll y (backToTop_scrolls ys st)"
  by (simp add: backToTop_scrolls_def)

text \<open>
  Claim C3. After the scroll listener has run on any sequence of scroll positions, the
  button is shown if and only if the latest offset is strictly greater than 300; it is
  hidden at offset exactly 300 and shown at 301.
\<close>

theorem C3_back_to_top_threshold:
  "backToTop_shown (backToTop_scrolls (ys @ [y]) st) = (y > 300)
   \<and> \<not> backToTop_shown (backToTop_scrolls (ys @ [300]) st)
   \<and> backToTop_shown (backToTop_scrolls (ys @ [301]) st)"
  by (simp add: backToTop_scrolls_snoc backToTop_scroll_shown)

subsection \<open>Toast utility\<close>

lemma find_id_Some:
  "find_id i els = Some k \<Longrightarrow> k < length els \<and> el_id (els ! k) = i"
proof (induction els arbitrary: k)
  case Nil
  then show ?case by simp
next
  case (Cons e es)
  show ?case
  proof (cases "el_id e = i")
    case True
    with Cons.prems show ?thesis by simp
  next
    case False
    with Cons.prems obtain j where j: "find_id i es = Some j" "k = Suc j"
      by auto
    with Cons.IH [OF j(1)] show ?thesis by simp
  qed
qed

lemma find_id_None: "find_id i els = None \<longleftrightarrow> i \<notin> set (map el_id els)"
  by (induction els) auto

lemma find_id_count: "find_id i els = None \<longleftrightarrow> count_list (map el_id els) i = 0"
  by (simp add: find_id_None count_list_0_iff)

lemma find_id_cong_ids:
  "map el_id els' = map el_id els \<Longrightarrow> find_id i els' = find_id i els"
proof (induction els arbitrary: els')
  case Nil
  then show ?case by simp
next
  case (Cons e es)
  then obtain e' es' where e: "els' = e' # es'" by (cases els') auto
  with Cons.prems have "el_id e' = el_id e" "map el_id es' = map el_id es" by simp_all
  with Cons.IH [of es'] show ?case by (simp add: e)
qed

lemma find_id_append_new:
  "find_id i els = None \<Longrightarrow> el_id e = i \<Longrightarrow> find_id i (els @ [e]) = Some (length els)"
  by (induction els) (simp_all split: if_splits)

lemma ids_update:
  assumes "t < length els" and "el_id e = el_id (els ! t)"
  shows "map el_id (els[t := e]) = map el_id els"
proof -
  have "map el_id (els[t := e]) = (map el_id els)[t := map el_id els ! t]"
    using assms by (simp add: map_update)
  then show ?thesis by (simp only: list_update_id)
qed

lemma ids_fade_out: "map el_id (fade_out t els) = map el_id els"
  by (simp add: fade_out_def ids_update)

lemma length_fade_out: "length (fade_out t els) = length els"
  by (simp add: fade_out_def)

lemma text_fade_out: "k < length els \<Longrightarrow> el_text (fade_out t els ! k) = el_text (els ! k)"
  by (simp add: fade_out_def nth_list_update)

lemma opacity_fade_out:
  "k < length els \<Longrightarrow>
     el_opacity (fade_out t els ! k) = (if t = k then js ''0'' else el_opacity (els ! k))"
  by (simp add: fade_out_def nth_list_update)

lemma fold_fade_out:
  "k < length els \<Longrightarrow>
     map el_id (fold (\<lambda>tm. fade_out (snd tm)) tms els) = map el_id els
     \<and> length (fold (\<lambda>tm. fade_out (snd tm)) tms els) = length els
     \<and> el_text (fold (\<lambda>tm. fade_out (snd tm)) tms els ! k) = el_text (els ! k)
     \<and> el_opacity (fold (\<lambda>tm. fade_out (snd tm)) tms els ! k)
         = (if k \<in> snd ` set tms then js ''0'' else el_opacity (els ! k))"
proof (induction tms arbitrary: els)
  case Nil
  then show ?case by simp
next
  case (Cons tm tms)
  have k: "k < length (fade_out (snd tm) els)"
    using Cons.prems by (simp add: length_fade_out)
  show ?case
    using Cons.IH [OF k] Cons.prems
    by (auto simp: ids_fade_out length_fade_out text_fade_out opacity_fade_out)
qed

lemma toast_new_el:
  assumes None: "find_id (js ''toast'') (document_els st) = None"
  shows "find_id (js ''toast'') (document_els (toast msg duration st))
           = Some (toast_index (document_els st))
       \<and> toast_index (document_els st) < length (document_els (toast msg duration st))
       \<and> el_text (document_els (toast msg duration st) ! toast_index (document_els st))
           = msg_arg msg
       \<and> el_opacity (document_els (toast msg duration st) ! toast_index (document_els st))
           = js ''1''
       \<and> toast_count (toast msg duration st) = max 1 (toast_count st)"
proof -
  let ?new = "\<lparr>el_id = js ''toast'', el_text = [], el_opacity = js ''0'',
                el_transform = js ''translateX(-50%)''\<rparr>"
  let ?els = "document_els st @ [?new]"
  let ?t = "length (document_els st)"
  have t: "toast_index (document_els st) = ?t"
    using None by (simp add: toast_index_def)
  have d: "document_els (toast msg duration st)
           = ?els[?t := (?els ! ?t)\<lparr>el_text := msg_arg msg, el_opacity := js ''1'',
                        el_transform := js ''translateX(-50%) translateY(0)''\<rparr>]"
    using None by (simp add: toast_def t Let_def)
  have ids: "map el_id (document_els (toast msg duration st)) = map el_id ?els"
    unfolding d by (rule ids_update) simp_all
  have f: "find_id (js ''toast'') (document_els (toast msg duration st)) = Some ?t"
    using find_id_cong_ids [OF ids] find_id_append_new [OF None, of ?new] by simp
  have c0: "count_list (map el_id (document_els st)) (js ''toast'') = 0"
    using None by (simp add: find_id_count)
  have c: "toast_count (toast msg duration st) = max 1 (toast_count st)"
    using c0 by (simp add: toast_count_def ids)
  have l: "?t < length (document_els (toast msg duration st))"
    by (simp add: d)
  have x: "el_text (document_els (toast msg duration st) ! ?t) = msg_arg msg"
    by (simp add: d)
  have o: "el_opacity (document_els (toast msg duration st) ! ?t) = js ''1''"
    by (simp add: d)
  show ?thesis
    using f c l x o by (simp add: t)
qed

lemma toast_old_el:
  assumes Some: "find_id (js ''toast'') (document_els st) = Some k"
  shows "find_id (js ''toast'') (document_els (toast msg duration st))
           = Some (toast_index (document_els st))
       \<and> toast_index (document_els st) < length (document_els (toast msg duration st))
       \<and> el_text (document_els (toast msg duration st) ! toast_index (document_els st))
           = msg_arg msg
       \<and> el_opacity (document_els (toast msg duration st) ! toast_index (document_els st))
           = js ''1''
       \<and> toast_count (toast msg duration st) = max 1 (toast_count st)"
proof -
  let ?els = "document_els st"
  have t: "toast_index ?els = k"
    using Some by (simp add: toast_index_def)
  have k: "k < length ?els" "el_id (?els ! k) = js ''toast''"
    using find_id_Some [OF Some] by simp_all
  have d: "document_els (toast msg duration st)
           = ?els[k := (?els ! k)\<lparr>el_text := msg_arg msg, el_opacity := js ''1'',
                        el_transform := js ''translateX(-50%) translateY(0)''\<rparr>]"
    using Some by (simp add: toast_def t Let_def)
  have ids: "map el_id (document_els (toast msg duration st)) = map el_id ?els"
    unfolding d by (rule ids_update) (simp_all add: k)
  have f: "find_id (js ''toast'') (document_els (toast msg duration st)) = Some k"
    using find_id_cong_ids [OF ids] Some by simp
  have "find_id (js ''toast'') ?els \<noteq> None"
    using Some by simp
  then have c0: "count_list (map el_id ?els) (js ''toast'') \<noteq> 0"
    unfolding find_id_count .
  have c: "toast_count (toast msg duration st) = max 1 (toast_count st)"
    using c0 by (simp add: toast_count_def ids)
  have l: "k < length (document_els (toast msg duration st))"
    by (simp add: d k)
  have x: "el_text (document_els (toast msg duration st) ! k) = msg_arg msg"
    using k(1) by (simp add: d)
  have o: "el_opacity (document_els (toast msg duration st) ! k) = js ''1''"
    using k(1) by (simp add: d)
  show ?thesis
    using f c l x o by (simp add: t)
qed

lemma toast_els:
  "find_id (js ''toast'') (document_els (toast msg duration st))
           = Some (toast_index (document_els st))
       \<and> toast_index (document_els st) < length (document_els (toast msg duration st))
       \<and> el_text (document_els (toast msg duration st) ! toast_index (document_els st))
           = msg_arg msg
       \<and> el_opacity (document_els (toast msg duration st) ! toast_index (document_els st))
           = js ''1''
       \<and> toast_count (toast msg duration st) = max 1 (toast_count st)"
proof (cases "find_id (js ''toast'') (document_els st)")
  case None
  then show ?thesis by (rule toast_new_el)
next
  case (Some k)
  then show ?thesis by (rule toast_old_el)
qed

lemma toast_timers:
  "now (toast msg duration st) = now st
   \<and> fade_timers (toast msg duration st)
       = fade_timers st @ [(now st + duration_arg duration, toast_index (document_els st))]"
  by (simp add: toast_def Let_def)

lemma zero_not_one: "js ''0'' \<noteq> js ''1''"
  by (simp add: js_def)

lemma advance_toast:
  assumes f: "find_id (js ''toast'') (document_els s) = Some t"
  shows "toast_message (advance dt s) = Some (el_text (document_els s ! t))
       \<and> (toast_visible (advance dt s) \<longleftrightarrow>
            el_opacity (document_els s ! t) = js ''1''
            \<and> (\<forall>tm \<in> set (fade_timers s). snd tm = t \<longrightarrow> now s + dt < fst tm))"
proof -
  let ?due = "filter (\<lambda>tm. fst tm \<le> now s + dt) (fade_timers s)"
  let ?els = "fold (\<lambda>tm. fade_out (snd tm)) (sort_key fst ?due) (document_els s)"
  have t: "t < length (document_els s)"
    using find_id_Some [OF f] by simp
  have d: "document_els (advance dt s) = ?els"
    by (simp add: advance_def Let_def)
  note F = fold_fade_out [OF t, of "sort_key fst ?due"]
  have f': "find_id (js ''toast'') ?els = Some t"
    using find_id_cong_ids [of ?els "document_els s" "js ''toast''"] F f by simp
  have x: "el_text (?els ! t) = el_text (document_els s ! t)"
    using F by simp
  have o: "el_opacity (?els ! t)
           = (if t \<in> snd ` set ?due then js ''0'' else el_opacity (document_els s ! t))"
    using F by simp
  have m: "t \<in> snd ` set ?due \<longleftrightarrow> \<not> (\<forall>tm \<in> set (fade_timers s). snd tm = t \<longrightarrow> now s + dt < fst tm)"
    by (force simp: image_iff not_less)
  show ?thesis
    using f' x o m zero_not_one by (auto simp: toast_message_def toast_visible_def d)
qed


text \<open>
  Claim C2, as stated, fails. A first toast "A" is shown at time 0 and a second toast "B"
  at time 1000, both with the default duration 1500. At time 1500, only 500 after the
  second call, the fade-out scheduled by the first call fires: the element shows "B" and
  is no longer visible.
\<close>

theorem C2_toast_earlier_fade_out_hides_later:
  "toast_message (advance 500 (toast (Some (js ''B'')) None
       (advance 1000 (toast (Some (js ''A'')) None toast_page0)))) = Some (js ''B'')
   \<and> 500 < duration_arg None
   \<and> \<not> toast_visible (advance 500 (toast (Some (js ''B'')) None
       (advance 1000 (toast (Some (js ''A'')) None toast_page0))))"
  by (simp add: toast_page0_def toast_def advance_def toast_visible_def toast_message_def
      toast_index_def duration_arg_def msg_arg_def fade_out_def js_def)

text \<open>
  Claim C2, amended. A call of \<open>toast\<close> uses the one element with id \<open>toast\<close> (creating it
  only when the document has none), sets its text to the message and makes it visible,
  and adds its own fade-out to the pending ones, none of which is cancelled. After \<open>dt\<close>
  more milliseconds the element still shows the message, and it is visible exactly when
  \<open>dt\<close> is less than the duration and no fade-out pending from an earlier call for that
  element has come due.
\<close>

theorem C2_toast_visible_until_earliest_fade_out:
  "toast_message (toast msg duration st) = Some (msg_arg msg)
   \<and> toast_visible (toast msg duration st)
   \<and> toast_count (toast msg duration st) = max 1 (toast_count st)
   \<and> fade_timers (toast msg duration st)
       = fade_timers st @ [(now st + duration_arg duration, toast_index (document_els st))]
   \<and> toast_message (advance dt (toast msg duration st)) = Some (msg_arg msg)
   \<and> (toast_visible (advance dt (toast msg duration st)) \<longleftrightarrow>
        dt < duration_arg duration
        \<and> (\<forall>tm \<in> set (fade_timers st).
              snd tm = toast_index (document_els st) \<longrightarrow> now st + dt < fst tm))"
proof -
  let ?s = "toast msg duration st"
  let ?t = "toast_index (document_els st)"
  note E = toast_els [of msg duration st]
  note T = toast_timers [of msg duration st]
  from E have f: "find_id (js ''toast'') (document_els ?s) = Some ?t" by simp
  note A = advance_toast [OF f, of dt]
  have "toast_message ?s = Some (msg_arg msg)"
    using E by (simp add: toast_message_def)
  moreover have "toast_visible ?s"
    using E by (simp add: toast_visible_def)
  moreover have "toast_count ?s = max 1 (toast_count st)"
    using E by simp
  moreover have "fade_timers ?s = fade_timers st @ [(now st + duration_arg duration, ?t)]"
    using T by simp
  moreover have "toast_message (advance dt ?s) = Some (msg_arg msg)"
    using A E by simp
  moreover have "toast_visible (advance dt ?s) \<longleftrightarrow>
        dt < duration_arg duration
        \<and> (\<forall>tm \<in> set (fade_timers st). snd tm = ?t \<longrightarrow> now st + dt < fst tm)"
    using A E T by auto
  ultimately show ?thesis by blast
qed


theorem C2_toast_visible_until_earliest_fade_out_witness:
  "(1500, 0) \<in> set (fade_timers (advance 1000 (toast (Some (js ''A'')) None toast_page0)))
   \<and> toast_visible (advance 499 (toast (Some (js ''B'')) None
         (advance 1000 (toast (Some (js ''A'')) None toast_page0))))"
  using C2_toast_visible_until_earliest_fade_out
    [of "Some (js ''B'')" None "advance 1000 (toast (Some (js ''A'')) None toast_page0)" 499]
  by (simp add: toast_page0_def toast_def advance_def toast_index_def duration_arg_def
      msg_arg_def fade_out_def js_def)

subsection \<open>Theme toggle\<close>

lemma light_not_dark: "js ''light'' \<noteq> js ''dark''"
  by (simp add: js_def)

lemma applyTheme_fields:
  "data_theme (applyTheme mode st) = Some mode
   \<and> localStorage (applyTheme mode st) = localStorage st
   \<and> body_ids (applyTheme mode st) = body_ids st
   \<and> toggle_text (applyTheme mode st) = toggle_text st"
  by (simp add: applyTheme_def)

lemma applyTheme_style:
  "style_blocks (applyTheme mode st) = max 1 (style_blocks st)
   \<and> length (head_ids (applyTheme mode st))
       = length (head_ids st) + (if style_blocks st = 0 then 1 else 0)"
proof (cases "js ''theme-style'' \<in> set (head_ids st @ body_ids st)")
  case True
  then have c: "style_blocks st \<noteq> 0"
    unfolding style_blocks_def by (simp only: count_list_0_iff) simp
  have "applyTheme mode st = st\<lparr>data_theme := Some mode\<rparr>"
    using True by (simp add: applyTheme_def)
  then have "style_blocks (applyTheme mode st) = style_blocks st"
    and "head_ids (applyTheme mode st) = head_ids st"
    by (simp_all add: style_blocks_def)
  with c show ?thesis by (simp add: max_def)
next
  case False
  then have c: "style_blocks st = 0"
    unfolding style_blocks_def by (simp only: count_list_0_iff) simp
  have "applyTheme mode st
        = st\<lparr>data_theme := Some mode, head_ids := head_ids st @ [js ''theme-style'']\<rparr>"
    using False by (simp add: applyTheme_def)
  then have "style_blocks (applyTheme mode st) = style_blocks st + 1"
    and "head_ids (applyTheme mode st) = head_ids st @ [js ''theme-style'']"
    by (simp_all add: style_blocks_def)
  with c show ?thesis by simp
qed

lemma click_fields:
  "data_theme (themeToggle_click st)
     = Some (if or_else (data_theme st) (js ''light'') = js ''dark'' then js ''light'' else js ''dark'')
   \<and> localStorage (themeToggle_click st)
     = (localStorage st)(theme_key \<mapsto>
         (if or_else (data_theme st) (js ''light'') = js ''dark'' then js ''light'' else js ''dark''))"
  by (simp add: themeToggle_click_def Let_def applyTheme_fields)

lemma click_style:
  "style_blocks (themeToggle_click st) = max 1 (style_blocks st)
   \<and> length (head_ids (themeToggle_click st))
       = length (head_ids st) + (if style_blocks st = 0 then 1 else 0)"
proof -
  let ?next = "if or_else (data_theme st) (js ''light'') = js ''dark'' then js ''light'' else js ''dark''"
  have h: "head_ids (themeToggle_click st) = head_ids (applyTheme ?next st)"
    "body_ids (themeToggle_click st) = body_ids (applyTheme ?next st)"
    by (simp_all add: themeToggle_click_def Let_def)
  have "style_blocks (themeToggle_click st) = style_blocks (applyTheme ?next st)"
    by (simp add: style_blocks_def h)
  with applyTheme_style [of ?next st] show ?thesis
    by (simp add: h)
qed

lemma theme_step_style:
  "style_blocks (theme_step op st) = max 1 (style_blocks st)
   \<and> length (head_ids (theme_step op st))
       = length (head_ids st) + (if style_blocks st = 0 then 1 else 0)"
  by (cases op) (simp_all add: applyTheme_style click_style)

lemma theme_steps_style:
  "style_blocks (fold theme_step ops st) = (if ops = [] then style_blocks st else max 1 (style_blocks st))
   \<and> length (head_ids (fold theme_step ops st))
       = length (head_ids st) + (if ops \<noteq> [] \<and> style_blocks st = 0 then 1 else 0)"
proof (induction ops arbitrary: st)
  case Nil
  then show ?case by simp
next
  case (Cons op ops)
  show ?case
    using Cons.IH [of "theme_step op st"] theme_step_style [of op st]
    by (auto simp: max_def)
qed

lemma toggle_twice:
  assumes "data_theme st = Some m" and "m = js ''light'' \<or> m = js ''dark''"
  shows "data_theme (themeToggle_click (themeToggle_click st)) = Some m
       \<and> localStorage (themeToggle_click (themeToggle_click st)) = (localStorage st)(theme_key \<mapsto> m)"
  using assms light_not_dark
  by (auto simp: click_fields or_else_def js_def)

text \<open>
  Claim C4, as stated, fails. On a first visit (nothing stored, no dark preference) the
  set-up applies "light" and stores nothing; after two toggles the marker is "light"
  again, but the stored preference is "light", no longer absent.
\<close>

theorem C4_theme_first_visit_preference_not_restored:
  "data_theme (themeToggle False theme_page0) = Some (js ''light'')
   \<and> localStorage (themeToggle False theme_page0) theme_key = None
   \<and> data_theme (themeToggle_click (themeToggle_click (themeToggle False theme_page0)))
       = Some (js ''light'')
   \<and> localStorage (themeToggle_click (themeToggle_click (themeToggle False theme_page0)))
         theme_key = Some (js ''light'')"
  by (simp add: theme_page0_def themeToggle_def themeToggle_click_def applyTheme_def
      or_else_def Let_def js_def)

text \<open>
  Claim C4, amended. From a state whose marker is "light" or "dark", two toggles return
  the marker to its initial value and leave the stored preference equal to it; the whole
  storage is as before when that value was already stored. Over any sequence of theme
  applications and toggles the number of style blocks never exceeds one (or the number
  the document had), and at most one element is added to the head.
\<close>

theorem C4_theme_toggle_twice:
  "(data_theme st = Some m \<and> (m = js ''light'' \<or> m = js ''dark'') \<longrightarrow>
      data_theme (themeToggle_click (themeToggle_click st)) = data_theme st
      \<and> localStorage (themeToggle_click (themeToggle_click st)) theme_key = Some m
      \<and> (localStorage st theme_key = Some m \<longrightarrow>
            localStorage (themeToggle_click (themeToggle_click st)) = localStorage st))
   \<and> style_blocks (theme_steps ops st) \<le> max 1 (style_blocks st)
   \<and> length (head_ids (theme_steps ops st)) \<le> length (head_ids st) + 1"
proof -
  have "style_blocks (theme_steps ops st) \<le> max 1 (style_blocks st)"
    and "length (head_ids (theme_steps ops st)) \<le> length (head_ids st) + 1"
    using theme_steps_style [of ops st] by (simp_all add: theme_steps_def)
  moreover have "localStorage st theme_key = Some m \<Longrightarrow>
      (localStorage st)(theme_key \<mapsto> m) = localStorage st"
    by (rule map_upd_triv)
  ultimately show ?thesis
    using toggle_twice [of st m] by auto
qed

theorem C4_theme_toggle_twice_witness:
  "data_theme (themeToggle_click (themeToggle False theme_page0)) = Some (js ''dark'')
   \<and> localStorage (themeToggle_click (themeToggle False theme_page0)) theme_key
       = Some (js ''dark'')
   \<and> data_theme (themeToggle_click (themeToggle_click
         (themeToggle_click (themeToggle False theme_page0)))) = Some (js ''dark'')
   \<and> localStorage (themeToggle_click (themeToggle_click
         (themeToggle_click (themeToggle False theme_page0))))
       = localStorage (themeToggle_click (themeToggle False theme_page0))"
  using C4_theme_toggle_twice
    [of "themeToggle_click (themeToggle False theme_page0)" "js ''dark''" "[]"]
  by (simp add: theme_page0_def themeToggle_def themeToggle_click_def applyTheme_def
      or_else_def Let_def js_def)

subsection \<open>Project filter\<close>

lemma active_toggle:
  "js ''active'' \<in> set (classList_toggle (js ''active'') force cs) \<longleftrightarrow> force"
  by (simp add: classList_toggle_def classList_add_def)

lemma setActive_length: "length (setActive b bs) = length bs"
  by (simp add: setActive_def)

lemma setActive_nth:
  "j < length bs \<Longrightarrow>
     setActive b bs ! j
       = (bs ! j)\<lparr>button_classes :=
                    classList_toggle (js ''active'') (j = b) (button_classes (bs ! j))\<rparr>"
  by (simp add: setActive_def)

lemma setActive_active:
  "j < length bs \<Longrightarrow> is_active (setActive b bs ! j) \<longleftrightarrow> j = b"
  by (simp add: setActive_nth is_active_def active_toggle)

lemma setActive_data_filter: "map data_filter (setActive b bs) = map data_filter bs"
  by (rule nth_equalityI) (simp_all add: setActive_length setActive_nth)

lemma applyFilter_length: "length (applyFilter lc tag cs) = length cs"
  by (simp add: applyFilter_def)

lemma applyFilter_data_tags: "map data_tags (applyFilter lc tag cs) = map data_tags cs"
  by (simp add: applyFilter_def comp_def)

lemma none_not_empty: "js ''none'' \<noteq> []"
  by (simp add: js_def)

lemma filter_click_inv:
  "length (buttons (filter_click lc b st)) = length (buttons st)
   \<and> map data_filter (buttons (filter_click lc b st)) = map data_filter (buttons st)
   \<and> length (cards (filter_click lc b st)) = length (cards st)
   \<and> map data_tags (cards (filter_click lc b st)) = map data_tags (cards st)
   \<and> filter_listeners (filter_click lc b st) = filter_listeners st"
  by (simp add: filter_click_def setActive_length setActive_data_filter
      applyFilter_length applyFilter_data_tags)

lemma filter_clicks_inv:
  "length (buttons (filter_clicks lc bs st)) = length (buttons st)
   \<and> map data_filter (buttons (filter_clicks lc bs st)) = map data_filter (buttons st)
   \<and> length (cards (filter_clicks lc bs st)) = length (cards st)
   \<and> map data_tags (cards (filter_clicks lc bs st)) = map data_tags (cards st)
   \<and> filter_listeners (filter_clicks lc bs st) = filter_listeners st"
proof (induction bs arbitrary: st)
  case Nil
  then show ?case by (simp add: filter_clicks_def)
next
  case (Cons b bs)
  show ?case
    using Cons.IH [of "filter_click lc b st"] filter_click_inv [of lc b st]
    by (simp add: filter_clicks_def)
qed

lemma filter_clicks_snoc:
  "filter_clicks lc (bs @ [b]) st = filter_click lc b (filter_clicks lc bs st)"
  by (simp add: filter_clicks_def)

lemma one_active:
  assumes "b < length bs" and "\<forall>j<length bs. P (bs ! j) \<longleftrightarrow> j = b"
  shows "length (filter P bs) = 1"
proof -
  have "{j. j < length bs \<and> P (bs ! j)} = {b}"
    using assms by blast
  then show ?thesis
    by (simp add: length_filter_conv_card)
qed

lemma map_eq_nth:
  assumes "map f xs = map f ys" and "k < length ys"
  shows "f (xs ! k) = f (ys ! k)"
proof -
  have "length xs = length ys"
    using assms(1) by (rule map_eq_imp_length_eq)
  then have "map f xs ! k = f (xs ! k)" and "map f ys ! k = f (ys ! k)"
    using assms(2) by simp_all
  then show ?thesis using assms(1) by simp
qed

lemma normalize_eq: "normalize lc x = trim (lc (or_else x []))"
  by (simp add: normalize_def)

lemma or_else_Some_Nil: "or_else (Some t) [] = t"
  by (simp add: or_else_def)

lemma card_tags_mem:
  "tag \<in> set (card_tags lc c)
     \<longleftrightarrow> (\<exists>t \<in> set (split comma (or_else (data_tags c) [])). trim (lc t) = tag)"
  by (auto simp: card_tags_def normalize_eq or_else_Some_Nil)

lemma applyFilter_display:
  "k < length cs \<Longrightarrow>
     card_display (applyFilter lc tag cs ! k)
       = (if tag = js ''all''
             \<or> (\<exists>t \<in> set (split comma (or_else (data_tags (cs ! k)) [])). trim (lc t) = tag)
          then [] else js ''none'')"
  by (simp add: applyFilter_def card_tags_mem)

text \<open>
  Claim C5. After any clicks on the controls that end with a click on a control \<open>b\<close>
  that has its listener, let \<open>tag\<close> be the \<open>data-filter\<close> of \<open>b\<close>, lower-cased and
  trimmed. A card's \<open>display\<close> is cleared (the card is shown) exactly when \<open>tag\<close> is "all"
  or equals one of the pieces of the card's \<open>data-tags\<close>, split at commas, each
  lower-cased and trimmed; otherwise it is "none". So "all" shows every card. And \<open>b\<close>
  is the one control that carries the class \<open>active\<close>.
\<close>

theorem C5_project_filter:
  assumes "b \<in> set (filter_listeners st)" and "b < length (buttons st)"
  shows "length (cards (filter_clicks lc (bs @ [b]) st)) = length (cards st)
    \<and> (\<forall>k<length (cards st).
          card_display (cards (filter_clicks lc (bs @ [b]) st) ! k)
            = (if trim (lc (or_else (data_filter (buttons st ! b)) [])) = js ''all''
                  \<or> (\<exists>t \<in> set (split comma (or_else (data_tags (cards st ! k)) [])).
                        trim (lc t) = trim (lc (or_else (data_filter (buttons st ! b)) [])))
               then [] else js ''none''))
    \<and> (trim (lc (or_else (data_filter (buttons st ! b)) [])) = js ''all''
          \<longrightarrow> (\<forall>c \<in> set (cards (filter_clicks lc (bs @ [b]) st)). card_display c \<noteq> js ''none''))
    \<and> (\<forall>j<length (buttons st).
          js ''active'' \<in> set (button_classes (buttons (filter_clicks lc (bs @ [b]) st) ! j))
            \<longleftrightarrow> j = b)
    \<and> length (filter is_active (buttons (filter_clicks lc (bs @ [b]) st))) = 1"
proof -
  let ?s = "filter_clicks lc bs st"
  let ?S = "filter_clicks lc (bs @ [b]) st"
  let ?tag = "trim (lc (or_else (data_filter (buttons st ! b)) []))"
  note I = filter_clicks_inv [of lc bs st]
  have b: "b \<in> set (filter_listeners ?s)" "b < length (buttons ?s)"
    using assms I by simp_all
  have df: "data_filter (buttons ?s ! b) = data_filter (buttons st ! b)"
    using I assms(2) by (intro map_eq_nth) simp_all
  have c: "filter_click lc b ?s
           = ?s\<lparr>buttons := setActive b (buttons ?s), cards := applyFilter lc ?tag (cards ?s)\<rparr>"
    using b by (simp add: filter_click_def df normalize_eq)
  have cs: "cards ?S = applyFilter lc ?tag (cards ?s)"
    and bt: "buttons ?S = setActive b (buttons ?s)"
    by (simp_all add: filter_clicks_snoc c)
  have len: "length (cards ?S) = length (cards st)"
    using I by (simp add: cs applyFilter_length)
  have dt: "data_tags (cards ?s ! k) = data_tags (cards st ! k)"
    if "k < length (cards st)" for k
    using I that by (intro map_eq_nth) simp_all
  have disp: "card_display (cards ?S ! k)
              = (if ?tag = js ''all''
                    \<or> (\<exists>t \<in> set (split comma (or_else (data_tags (cards st ! k)) [])).
                          trim (lc t) = ?tag)
                 then [] else js ''none'')"
    if "k < length (cards st)" for k
    using that I dt [OF that] by (simp add: cs applyFilter_display)
  have all: "\<forall>c \<in> set (cards ?S). card_display c \<noteq> js ''none''"
    if "?tag = js ''all''"
  proof
    fix c assume "c \<in> set (cards ?S)"
    then obtain k where k: "k < length (cards st)" "c = cards ?S ! k"
      using len by (metis in_set_conv_nth)
    have "card_display (cards ?S ! k) = []"
      using disp [OF k(1)] that by simp
    then show "card_display c \<noteq> js ''none''"
      using k(2) none_not_empty by simp
  qed
  have act: "is_active (buttons ?S ! j) \<longleftrightarrow> j = b"
    if "j < length (buttons st)" for j
    using that I by (simp add: bt setActive_active)
  have one: "length (filter is_active (buttons ?S)) = 1"
  proof (rule one_active)
    show "b < length (buttons ?S)"
      using b(2) by (simp add: bt setActive_length)
    show "\<forall>j<length (buttons ?S). is_active (buttons ?S ! j) = (j = b)"
      using act I by (simp add: bt setActive_length)
  qed
  have act': "\<forall>j<length (buttons st).
      js ''active'' \<in> set (button_classes (buttons ?S ! j)) \<longleftrightarrow> j = b"
    using act by (simp add: is_active_def)
  have disp': "\<forall>k<length (cards st).
          card_display (cards ?S ! k)
            = (if ?tag = js ''all''
                  \<or> (\<exists>t \<in> set (split comma (or_else (data_tags (cards st ! k)) [])).
                        trim (lc t) = ?tag)
               then [] else js ''none'')"
    using disp by blast
  from len disp' all act' one show ?thesis by blast
qed

lemma ex_eval:
  "filter_page_example =
     \<lparr>buttons = [\<lparr>data_filter = Some (js ''all''), button_classes = []\<rparr>,
                 \<lparr>data_filter = Some (js '' Web ''), button_classes = []\<rparr>],
      cards = [\<lparr>data_tags = Some (js '' WEB ,js''), card_display = []\<rparr>,
               \<lparr>data_tags = Some (js ''design''), card_display = []\<rparr>],
      filter_listeners = [0, 1]\<rparr>"
  by (simp add: filter_page_example_def projectFilter_def filter_page_of_def applyFilter_def upt_rec)

lemma ex_strings:
  "split comma (js '' WEB ,js'') = [js '' WEB '', js ''js'']"
  "split comma (js ''design'') = [js ''design'']"
  "trim (toLowerCase_ascii (js '' WEB '')) = js ''web''"
  "trim (toLowerCase_ascii (js ''js'')) = js ''js''"
  "trim (toLowerCase_ascii (js ''design'')) = js ''design''"
  "trim (toLowerCase_ascii (js '' Web '')) = js ''web''"
  "trim (toLowerCase_ascii (js ''all'')) = js ''all''"
  by (simp_all add: comma_def toLowerCase_ascii_def trim_def is_js_whitespace_def js_def)

lemma ex_distinct:
  "js ''web'' \<noteq> js ''all''" "js ''js'' \<noteq> js ''web''" "js ''design'' \<noteq> js ''web''"
  "js '' WEB ,js'' \<noteq> []" "js ''design'' \<noteq> []" "js '' Web '' \<noteq> []" "js ''all'' \<noteq> []"
  by (simp_all add: js_def)

theorem C5_project_filter_witness:
  "1 \<in> set (filter_listeners filter_page_example)
   \<and> 1 < length (buttons filter_page_example)
   \<and> data_filter (buttons filter_page_example ! 1) = Some (js '' Web '')
   \<and> data_tags (cards filter_page_example ! 0) = Some (js '' WEB ,js'')
   \<and> data_tags (cards filter_page_example ! 1) = Some (js ''design'')
   \<and> split comma (js '' WEB ,js'') = [js '' WEB '', js ''js'']
   \<and> trim (toLowerCase_ascii (js '' WEB '')) = js ''web''
   \<and> trim (toLowerCase_ascii (js '' Web '')) = js ''web''
   \<and> card_display (cards (filter_clicks toLowerCase_ascii ([0] @ [1]) filter_page_example) ! 0)
       = []
   \<and> card_display (cards (filter_clicks toLowerCase_ascii ([0] @ [1]) filter_page_example) ! 1)
       = js ''none''
   \<and> card_display (cards (filter_clicks toLowerCase_ascii ([1] @ [0]) filter_page_example) ! 1)
       = []
   \<and> length (filter is_active
        (buttons (filter_clicks toLowerCase_ascii ([0] @ [1]) filter_page_example))) = 1"
proof -
  have h1: "1 \<in> set (filter_listeners filter_page_example)"
    and h2: "1 < length (buttons filter_page_example)"
    and h3: "0 \<in> set (filter_listeners filter_page_example)"
    and h4: "0 < length (buttons filter_page_example)"
    by (simp_all add: ex_eval)
  have f: "data_filter (buttons filter_page_example ! 1) = Some (js '' Web '')"
    "data_filter (buttons filter_page_example ! 0) = Some (js ''all'')"
    "data_tags (cards filter_page_example ! 0) = Some (js '' WEB ,js'')"
    "data_tags (cards filter_page_example ! 1) = Some (js ''design'')"
    by (simp_all add: ex_eval)
  have g: "data_filter (buttons filter_page_example ! Suc 0) = Some (js '' Web '')"
    "data_tags (cards filter_page_example ! Suc 0) = Some (js ''design'')"
    by (simp_all add: ex_eval)
  have l: "(0::nat) < length (cards filter_page_example)"
    "(1::nat) < length (cards filter_page_example)"
    by (simp_all add: ex_eval)
  let ?S = "filter_clicks toLowerCase_ascii ([0] @ [1]) filter_page_example"
  let ?A = "filter_clicks toLowerCase_ascii ([1] @ [0]) filter_page_example"
  note T = C5_project_filter [OF h1 h2, of toLowerCase_ascii "[0]"]
  note U = C5_project_filter [OF h3 h4, of toLowerCase_ascii "[1]"]
  from T have d: "\<forall>k<length (cards filter_page_example).
      card_display (cards ?S ! k)
        = (if trim (toLowerCase_ascii (or_else (data_filter (buttons filter_page_example ! 1)) []))
                = js ''all''
              \<or> (\<exists>t \<in> set (split comma (or_else (data_tags (cards filter_page_example ! k)) [])).
                    trim (toLowerCase_ascii t)
                      = trim (toLowerCase_ascii
                                (or_else (data_filter (buttons filter_page_example ! 1)) [])))
           then [] else js ''none'')"
    by blast
  from d l(1) have "card_display (cards ?S ! 0)
        = (if trim (toLowerCase_ascii (or_else (data_filter (buttons filter_page_example ! 1)) []))
                = js ''all''
              \<or> (\<exists>t \<in> set (split comma (or_else (data_tags (cards filter_page_example ! 0)) [])).
                    trim (toLowerCase_ascii t)
                      = trim (toLowerCase_ascii
                                (or_else (data_filter (buttons filter_page_example ! 1)) [])))
           then [] else js ''none'')"
    by blast
  then have d0: "card_display (cards ?S ! 0) = []"
    using ex_distinct by (simp add: f g or_else_def ex_strings)
  from d l(2) have "card_display (cards ?S ! 1)
        = (if trim (toLowerCase_ascii (or_else (data_filter (buttons filter_page_example ! 1)) []))
                = js ''all''
              \<or> (\<exists>t \<in> set (split comma (or_else (data_tags (cards filter_page_example ! 1)) [])).
                    trim (toLowerCase_ascii t)
                      = trim (toLowerCase_ascii
                                (or_else (data_filter (buttons filter_page_example ! 1)) [])))
           then [] else js ''none'')"
    by blast
  then have d1: "card_display (cards ?S ! 1) = js ''none''"
    using ex_distinct by (simp add: f g or_else_def ex_strings)
  from U have "\<forall>k<length (cards filter_page_example).
      card_display (cards ?A ! k)
        = (if trim (toLowerCase_ascii (or_else (data_filter (buttons filter_page_example ! 0)) []))
                = js ''all''
              \<or> (\<exists>t \<in> set (split comma (or_else (data_tags (cards filter_page_example ! k)) [])).
                    trim (toLowerCase_ascii t)
                      = trim (toLowerCase_ascii
                                (or_else (data_filter (buttons filter_page_example ! 0)) [])))
           then [] else js ''none'')"
    by blast
  with l(2) have "card_display (cards ?A ! 1)
        = (if trim (toLowerCase_ascii (or_else (data_filter (buttons filter_page_example ! 0)) []))
                = js ''all''
              \<or> (\<exists>t \<in> set (split comma (or_else (data_tags (cards filter_page_example ! 1)) [])).
                    trim (toLowerCase_ascii t)
                      = trim (toLowerCase_ascii
                                (or_else (data_filter (buttons filter_page_example ! 0)) [])))
           then [] else js ''none'')"
    by blast
  then have a1: "card_display (cards ?A ! 1) = []"
    using ex_distinct by (simp add: f g or_else_def ex_strings)
  from T have one: "length (filter is_active (buttons ?S)) = 1"
    by blast
  show ?thesis
    using h1 h2 f ex_strings(1,3,6) d0 d1 a1 one by blast
qed

subsection \<open>Copy e-mail to clipboard\<close>








subsection \<open>Smooth scroll for hash links\<close>











text \<open>
  Claim C10. A click on a link whose \<open>href\<close> is exactly "#" changes nothing, whatever
  the selector engine would answer: the default action is not prevented and no history
  entry is pushed. The handler returns normally even with an engine that throws on
  every selector, so the lookup is not attempted.
\<close>

theorem C10_bare_hash_is_ignored:
  "length (js ''#'') = 1
   \<and> smoothScroll_click qs (Some (js ''#'')) st = Inr st
   \<and> smoothScroll_click (\<lambda>sel. Inl SyntaxError) (Some (js ''#'')) st = Inr st"
  by (simp add: smoothScroll_click_def js_def)

subsection \<open>Reveal-on-scroll\<close>

lemma classList_add_mem: "c \<in> set (classList_add c cs)"
  by (simp add: classList_add_def)

lemma classList_add_mono: "c \<in> set cs \<Longrightarrow> c \<in> set (classList_add c' cs)"
  by (simp add: classList_add_def)

lemma reveal_entry_reveals:
  "isIntersecting entry \<Longrightarrow> revealed (reveal_entry entry st) (entry_target entry)"
  by (simp add: reveal_entry_def revealed_def classList_add_mem io_unobserve_def)

lemma reveal_entry_keeps:
  "revealed st el \<Longrightarrow> revealed (reveal_entry entry st) el"
  by (auto simp: reveal_entry_def revealed_def classList_add_mem classList_add_mono
      io_unobserve_def)

lemma io_callback_keeps:
  "revealed st el \<Longrightarrow> revealed (io_callback entries st) el"
  unfolding io_callback_def
  by (induction entries arbitrary: st) (simp_all add: reveal_entry_keeps)

lemma io_callback_reveals:
  "entry \<in> set entries \<Longrightarrow> isIntersecting entry \<Longrightarrow>
     revealed (io_callback entries st) (entry_target entry)"
proof (induction entries arbitrary: st)
  case Nil
  then show ?case by simp
next
  case (Cons e es)
  show ?case
  proof (cases "entry = e")
    case True
    then have "revealed (reveal_entry e st) (entry_target entry)"
      using Cons.prems(2) by (simp add: reveal_entry_reveals)
    then have "revealed (io_callback es (reveal_entry e st)) (entry_target entry)"
      by (rule io_callback_keeps)
    then show ?thesis by (simp add: io_callback_def)
  next
    case False
    then have "entry \<in> set es" using Cons.prems(1) by simp
    then have "revealed (io_callback es (reveal_entry e st)) (entry_target entry)"
      using Cons.prems(2) by (rule Cons.IH)
    then show ?thesis by (simp add: io_callback_def)
  qed
qed

lemma io_callbacks_keeps:
  "revealed st el \<Longrightarrow> revealed (io_callbacks batches st) el"
  unfolding io_callbacks_def
  by (induction batches arbitrary: st) (simp_all add: io_callback_keeps)

lemma io_callbacks_reveals:
  "entry \<in> set (concat batches) \<Longrightarrow> isIntersecting entry \<Longrightarrow>
     revealed (io_callbacks batches st) (entry_target entry)"
proof (induction batches arbitrary: st)
  case Nil
  then show ?case by simp
next
  case (Cons b bs)
  show ?case
  proof (cases "entry \<in> set b")
    case True
    then have "revealed (io_callback b st) (entry_target entry)"
      using Cons.prems(2) by (rule io_callback_reveals)
    then have "revealed (io_callbacks bs (io_callback b st)) (entry_target entry)"
      by (rule io_callbacks_keeps)
    then show ?thesis by (simp add: io_callbacks_def)
  next
    case False
    then have "entry \<in> set (concat bs)" using Cons.prems(1) by simp
    then have "revealed (io_callbacks bs (io_callback b st)) (entry_target entry)"
      using Cons.prems(2) by (rule Cons.IH)
    then show ?thesis by (simp add: io_callbacks_def)
  qed
qed

lemma io_callbacks_append:
  "io_callbacks (bs @ cs) st = io_callbacks cs (io_callbacks bs st)"
  by (simp add: io_callbacks_def)

text \<open>
  Claim C8. Once the observer's callback has received an intersecting entry for an
  element, the element carries the class \<open>reveal-in\<close> and is no longer watched, and this
  stays so after any later batches of entries, intersecting or not.
\<close>

theorem C8_reveal_is_one_shot:
  assumes "entry \<in> set (concat batches)" and "isIntersecting entry"
  shows "js ''reveal-in'' \<in> set (classList (io_callbacks (batches @ later) st) (entry_target entry))
       \<and> entry_target entry \<notin> set (observed (io_callbacks (batches @ later) st))"
proof -
  have "revealed (io_callbacks batches st) (entry_target entry)"
    using assms by (rule io_callbacks_reveals)
  then have "revealed (io_callbacks later (io_callbacks batches st)) (entry_target entry)"
    by (rule io_callbacks_keeps)
  then show ?thesis
    by (simp add: io_callbacks_append revealed_def)
qed

theorem C8_reveal_is_one_shot_witness:
  "observed (revealOnScroll True [1, 2] reveal_page0) = [1, 2]
   \<and> js ''reveal-in'' \<in> set (classList
        (io_callbacks
           ([[\<lparr>entry_target = 1, isIntersecting = False\<rparr>,
              \<lparr>entry_target = 2, isIntersecting = False\<rparr>],
             [\<lparr>entry_target = 1, isIntersecting = True\<rparr>]]
            @ [[\<lparr>entry_target = 1, isIntersecting = False\<rparr>]])
           (revealOnScroll True [1, 2] reveal_page0)) 1)
   \<and> observed
        (io_callbacks
           ([[\<lparr>entry_target = 1, isIntersecting = False\<rparr>,
              \<lparr>entry_target = 2, isIntersecting = False\<rparr>],
             [\<lparr>entry_target = 1, isIntersecting = True\<rparr>]]
            @ [[\<lparr>entry_target = 1, isIntersecting = False\<rparr>]])
           (revealOnScroll True [1, 2] reveal_page0)) = [2]"
proof -
  have o: "observed (revealOnScroll True [1, 2] reveal_page0) = [1, 2]"
    by (simp add: revealOnScroll_def reveal_init_def reveal_page0_def io_observe_def)
  have o': "observed
        (io_callbacks
           ([[\<lparr>entry_target = 1, isIntersecting = False\<rparr>,
              \<lparr>entry_target = 2, isIntersecting = False\<rparr>],
             [\<lparr>entry_target = 1, isIntersecting = True\<rparr>]]
            @ [[\<lparr>entry_target = 1, isIntersecting = False\<rparr>]])
           (revealOnScroll True [1, 2] reveal_page0)) = [2]"
    by (simp add: revealOnScroll_def reveal_init_def reveal_page0_def io_observe_def
        io_callbacks_def io_callback_def reveal_entry_def io_unobserve_def)
  show ?thesis
    using C8_reveal_is_one_shot
      [of "\<lparr>entry_target = 1, isIntersecting = True\<rparr>"
          "[[\<lparr>entry_target = 1, isIntersecting = False\<rparr>,
             \<lparr>entry_target = 2, isIntersecting = False\<rparr>],
            [\<lparr>entry_target = 1, isIntersecting = True\<rparr>]]"
          "[[\<lparr>entry_target = 1, isIntersecting = False\<rparr>]]"
          "revealOnScroll True [1, 2] reveal_page0"] o o'
    by simp
qed


subsection \<open>Features whose elements are absent\<close>

text \<open>
  Claim C9. Each optional feature leaves the page exactly as it found it when its
  elements are absent: the typing effect without a \<open>header p\<close>, the project filter
  without controls or without cards (a later click on a control then does nothing
  either), the image viewer without opt-in images, and the copy-e-mail control without a
  matching element. No listener or timer is registered and nothing is raised.
\<close>

theorem C9_absent_elements_no_op:
  "(header_p tp = None \<longrightarrow> typingEffect tp = tp)
   \<and> (buttons fp = [] \<or> cards fp = [] \<longrightarrow> projectFilter lc fp = fp)
   \<and> (cards fp = [] \<and> filter_listeners fp = [] \<longrightarrow>
        filter_click lc b (projectFilter lc fp) = fp)
   \<and> (imgs lp = [] \<longrightarrow> lightbox lp = lp)
   \<and> (copy_target cp = None \<longrightarrow> copyEmail cp = cp \<and> copyEmail_click (copyEmail cp) = cp)"
  by (simp add: typingEffect_def projectFilter_def filter_click_def lightbox_def
      copyEmail_def copyEmail_click_def)

theorem C9_absent_elements_no_op_witness:
  "typingEffect \<lparr>header_p = None, full = [], i_next = 0, cursor_opacity = [],
                  timeouts = 0, intervals = 0\<rparr>
     = \<lparr>header_p = None, full = [], i_next = 0, cursor_opacity = [],
        timeouts = 0, intervals = 0\<rparr>
   \<and> projectFilter toLowerCase_ascii (filter_page_of [js ''all''] [])
       = filter_page_of [js ''all''] []
   \<and> filter_click toLowerCase_ascii 0
         (projectFilter toLowerCase_ascii (filter_page_of [js ''all''] []))
       = filter_page_of [js ''all''] []
   \<and> lightbox \<lparr>imgs = [], overlay = None, lightbox_body = [], lightbox_listeners = []\<rparr>
       = \<lparr>imgs = [], overlay = None, lightbox_body = [], lightbox_listeners = []\<rparr>
   \<and> copyEmail \<lparr>copy_target = None, copy_listener = False, copy_prevented = False,
                 clipboard_writes = []\<rparr>
       = \<lparr>copy_target = None, copy_listener = False, copy_prevented = False,
          clipboard_writes = []\<rparr>"
  using C9_absent_elements_no_op
    [of "\<lparr>header_p = None, full = [], i_next = 0, cursor_opacity = [],
           timeouts = 0, intervals = 0\<rparr>"
        "filter_page_of [js ''all''] []" toLowerCase_ascii 0
        "\<lparr>imgs = [], overlay = None, lightbox_body = [], lightbox_listeners = []\<rparr>"
        "\<lparr>copy_target = None, copy_listener = False, copy_prevented = False,
           clipboard_writes = []\<rparr>"]
  by (simp add: filter_page_of_def filter_click_def)

end
